theory Spec2Isabelle
  imports Complex_Main
begin

section \<open>JavaScript string primitives used by the code codec\<close>

text \<open>
  A string is a list of characters with codes below 256; the alphabets, salts, codes and
  identities of the repository's documentation and tests are ASCII.  An \<open>undefined\<close> value
  is \<open>None\<close>; a \<open>NaN\<close> number is \<open>None\<close> as well.
\<close>

definition is_ascii :: "char \<Rightarrow> bool" where
  "is_ascii c = ((of_char c :: nat) < 128)"

text \<open>\<open>String.prototype.indexOf\<close> for a single character: the first index, or \<open>-1\<close>.\<close>

fun indexOf :: "string \<Rightarrow> char \<Rightarrow> int" where
  "indexOf [] c = -1"
| "indexOf (x # xs) c =
     (if x = c then 0 else (let r = indexOf xs c in if r < 0 then -1 else r + 1))"

text \<open>\<open>String.prototype.includes\<close> for a single character.\<close>

definition str_includes :: "string \<Rightarrow> char \<Rightarrow> bool" where
  "str_includes s c = (c \<in> set s)"

text \<open>\<open>charCodeAt\<close> of a character.\<close>

definition charCode :: "char \<Rightarrow> int" where
  "charCode c = int (of_char c)"

text \<open>
  The remainder operator \<open>%\<close> on integers: the result takes the sign of the dividend; an
  \<open>undefined\<close> dividend and a zero divisor give \<open>NaN\<close>.
\<close>

definition js_rem :: "int option \<Rightarrow> int \<Rightarrow> int option" where
  "js_rem a b =
     (case a of
        None \<Rightarrow> None
      | Some x \<Rightarrow>
          if b = 0 then None
          else Some (if x < 0 then - ((- x) mod \<bar>b\<bar>) else x mod \<bar>b\<bar>))"

text \<open>Indexing a buffer of bytes: \<open>bytes[i]\<close> is \<open>undefined\<close> outside the buffer.\<close>

definition byteAt :: "nat list \<Rightarrow> nat \<Rightarrow> int option" where
  "byteAt bytes i = (if i < length bytes then Some (int (bytes ! i)) else None)"

text \<open>Indexing \<open>s[i]\<close>: \<open>undefined\<close> outside the string and at \<open>NaN\<close>.\<close>

definition charAt :: "string \<Rightarrow> int option \<Rightarrow> char option" where
  "charAt s i =
     (case i of
        None \<Rightarrow> None
      | Some k \<Rightarrow> (if 0 \<le> k \<and> k < int (length s) then Some (s ! nat k) else None))"

text \<open>String concatenation with a value that may be \<open>undefined\<close>.\<close>

definition str_of :: "char option \<Rightarrow> string" where
  "str_of v = (case v of None \<Rightarrow> ''undefined'' | Some c \<Rightarrow> [c])"

text \<open>
  \<open>toUpperCase\<close> on ASCII text.  Outside ASCII the function below leaves a character as it
  is, which \<open>String.prototype.toUpperCase\<close> does not; what is proved of \<open>validate\<close> and
  \<open>generate\<close> is therefore stated for ASCII alphabets.
\<close>

definition upper_char :: "char \<Rightarrow> char" where
  "upper_char c =
     (if of_char (CHR ''a'') \<le> (of_char c :: nat) \<and> (of_char c :: nat) \<le> of_char (CHR ''z'')
      then char_of ((of_char c :: nat) - 32) else c)"

definition toUpperCase :: "string \<Rightarrow> string" where
  "toUpperCase s = map upper_char s"

text \<open>
  \<open>toLowerCase\<close> and \<open>trim\<close>, the setters of the schema's \<open>lowercase: true\<close> and
  \<open>trim: true\<close>.  Below 256 the upper-case letters are \<open>A\<close> to \<open>Z\<close> and the codes 192 to 222
  without the multiplication sign 215; the white space is the codes 9 to 13, the space 32
  and the no-break space 160.
\<close>

definition lower_char :: "char \<Rightarrow> char" where
  "lower_char c =
     (let n = (of_char c :: nat) in
      if (65 \<le> n \<and> n \<le> 90) \<or> (192 \<le> n \<and> n \<le> 222 \<and> n \<noteq> 215) then char_of (n + 32)
      else c)"

definition toLowerCase :: "string \<Rightarrow> string" where
  "toLowerCase s = map lower_char s"

definition is_space :: "char \<Rightarrow> bool" where
  "is_space c = (let n = (of_char c :: nat) in (9 \<le> n \<and> n \<le> 13) \<or> n = 32 \<or> n = 160)"

definition trim :: "string \<Rightarrow> string" where
  "trim s = rev (dropWhile is_space (rev (dropWhile is_space s)))"

text \<open>\<open>s.replace('-', '')\<close>: only the first dash is removed.\<close>

definition replace_dash :: "string \<Rightarrow> string" where
  "replace_dash s = remove1 (CHR ''-'') s"

section \<open>The code codec: \<open>CustomBase31Generator\<close>\<close>

text \<open>
  The generator object holds the configured alphabet and salt
  (\<open>config.system.invite_alphabet\<close>, \<open>config.system.salt\<close>); \<open>base\<close> is the length of the
  alphabet.
\<close>

record generator =
  alphabet :: string
  salt :: string

definition base :: "generator \<Rightarrow> int" where
  "base g = int (length (alphabet g))"

text \<open>
  \<open>generateRandomChars(length)\<close>.  The bytes are the buffer returned by
  \<open>crypto.randomBytes(length * 2)\<close>, of which the first \<open>length\<close> are read; byte \<open>i\<close> selects
  \<open>alphabet[bytes[i] % base]\<close>.
\<close>

definition generateRandomChars :: "generator \<Rightarrow> nat \<Rightarrow> nat list \<Rightarrow> string" where
  "generateRandomChars g len bytes =
     foldl (\<lambda>result i.
              result @ str_of (charAt (alphabet g) (js_rem (byteAt bytes i) (base g))))
       [] [0..<len]"

text \<open>
  \<open>calculateChecksum(str)\<close>: the weighted sum of the alphabet indices (weights
  \<open>1, 2, 1, 2, ...\<close>), then the character codes of the salt, then
  \<open>alphabet[sum % base]\<close>.
\<close>

definition weighted_sum :: "generator \<Rightarrow> string \<Rightarrow> int" where
  "weighted_sum g str =
     foldl (\<lambda>sum i. sum + indexOf (alphabet g) (str ! i) * (int (i mod 2) + 1))
       0 [0..<length str]"

definition salted_sum :: "generator \<Rightarrow> int \<Rightarrow> int" where
  "salted_sum g sum0 =
     foldl (\<lambda>sum i. sum + charCode (salt g ! i)) sum0 [0..<length (salt g)]"

definition calculateChecksum :: "generator \<Rightarrow> string \<Rightarrow> char option" where
  "calculateChecksum g str =
     charAt (alphabet g) (js_rem (Some (salted_sum g (weighted_sum g str))) (base g))"

text \<open>
  \<open>generate()\<close>, as a function of the buffer of 14 random bytes drawn: seven random
  characters, the checksum spliced in after the third, a dash after the fourth character.
\<close>

definition generate :: "generator \<Rightarrow> nat list \<Rightarrow> string" where
  "generate g bytes =
     (let randomChars = generateRandomChars g 7 bytes;
          checksum = calculateChecksum g randomChars;
          code = take 3 randomChars @ str_of checksum @ drop 3 randomChars
      in take 4 code @ ''-'' @ drop 4 code)"

text \<open>\<open>validate(code)\<close>.\<close>

definition validate :: "generator \<Rightarrow> string \<Rightarrow> bool" where
  "validate g code =
     (let clean = replace_dash (toUpperCase code) in
      if length clean \<noteq> 8 then False
      else if \<exists>c \<in> set clean. \<not> str_includes (alphabet g) c then False
      else (let checksum = clean ! 3;
                original = take 3 clean @ drop 4 clean;
                expectedChecksum = calculateChecksum g original
            in Some checksum = expectedChecksum))"

text \<open>\<open>format(code)\<close>.\<close>

definition format :: "string \<Rightarrow> string" where
  "format code =
     (let clean = toUpperCase (replace_dash code) in
      if length clean \<noteq> 8 then code else take 4 clean @ ''-'' @ drop 4 clean)"

section \<open>The invite collection, the cache and the lock store\<close>

text \<open>
  A document of the \<open>Invite\<close> collection.  The fields cached in Redis by \<open>createInvite\<close>
  (\<open>_id\<close>, \<open>code\<close>, \<open>referrerEmail\<close>, \<open>maxUses\<close>, \<open>currentUses\<close>, \<open>isActive\<close>, \<open>expiresAt\<close>)
  form the record \<open>cached_invite\<close>; a document extends it by the \<open>usedBy\<close> array.  Dates
  are milliseconds since the epoch.
\<close>

record used_entry =
  email :: string
  ipAddress :: string
  usedAt :: int

record cached_invite =
  oid :: nat
  code :: string
  referrerEmail :: string
  maxUses :: int
  currentUses :: int
  isActive :: bool
  expiresAt :: int

record invite = cached_invite +
  usedBy :: "used_entry list"

text \<open>
  The state outside the process: the Mongo collection in insertion order, the Redis keys
  \<open>invite:<code>\<close> and the Redis keys \<open>lock:invite:<code>\<close> (both keyed by the code here; the
  two prefixes never produce the same key).  The expiry of Redis keys (24 hours for a
  cache entry, 5 seconds for a lock) is real time and is not part of the state.
\<close>

record store =
  invites :: "invite list"
  cache :: "string \<rightharpoonup> cached_invite"
  locks :: "string \<rightharpoonup> string"

text \<open>
  What one call reads from its environment: the clock, the lock token returned by
  \<open>crypto.randomUUID()\<close>, the result of the \<open>k\<close>-th call of \<open>crypto.randomBytes\<close>, and for
  each Redis command whether it is rejected.
\<close>

record env =
  now :: int
  lockId :: string
  randomBytes :: "nat \<Rightarrow> nat list"
  redis_set_fails :: bool
  redis_get_fails :: bool
  redis_del_fails :: bool
  redis_setex_fails :: bool
  redis_eval_fails :: bool

text \<open>
  The errors thrown by the service, by their messages:
  \<open>InvalidFormat\<close> is 'Invalid invite code format or checksum',
  \<open>Contended\<close> is 'Another request is processing this code',
  \<open>NotFound\<close> is 'Invalid invite code',
  \<open>MaxUsesReached\<close> is 'Invite code has reached max uses',
  \<open>Expired\<close> is 'Invite code has expired',
  \<open>IdentityAlreadyRedeemed\<close> is 'Email has already used an invite code',
  \<open>CodeSpaceExhausted\<close> is 'Failed to generate unique code';
  \<open>ValidationError\<close> is raised by \<open>save\<close> for a document that violates the schema,
  \<open>DuplicateKey\<close> by \<open>save\<close> for a code that the unique index already holds, and
  \<open>RedisError\<close> is a rejected Redis command.  The database itself is taken to be
  available: its commands are always served.
\<close>

datatype error =
    InvalidFormat
  | Contended
  | NotFound
  | MaxUsesReached
  | Expired
  | IdentityAlreadyRedeemed
  | CodeSpaceExhausted
  | ValidationError
  | DuplicateKey
  | RedisError

subsection \<open>Queries and updates of the collection\<close>

text \<open>\<open>Invite.findOne({ code })\<close>.\<close>

definition findOne_code :: "invite list \<Rightarrow> string \<Rightarrow> invite option" where
  "findOne_code db c = find (\<lambda>d. code d = c) db"

text \<open>\<open>Invite.findOne({ code, isActive: true })\<close>.\<close>

definition findOne_active :: "invite list \<Rightarrow> string \<Rightarrow> invite option" where
  "findOne_active db c = find (\<lambda>d. code d = c \<and> isActive d) db"

text \<open>
  \<open>Invite.findOne({ 'usedBy.email': userEmail })\<close>.  The redeeming identity is compared, and
  by \<open>useInvite\<close> stored, as it is handed to the service: lower-cased and trimmed by the
  request validation, which is what the schema's setters would make of it.
\<close>

definition findOne_usedBy :: "invite list \<Rightarrow> string \<Rightarrow> invite option" where
  "findOne_usedBy db userEmail = find (\<lambda>d. \<exists>u \<in> set (usedBy d). email u = userEmail) db"

text \<open>
  \<open>Invite.findByIdAndUpdate(id, update, { new: true })\<close>: the first document with the id
  is replaced by its update and returned; without such a document the result is \<open>null\<close>.
\<close>

fun updateOne :: "nat \<Rightarrow> (invite \<Rightarrow> invite) \<Rightarrow> invite list \<Rightarrow> invite list" where
  "updateOne i f [] = []"
| "updateOne i f (d # ds) = (if oid d = i then f d # ds else d # updateOne i f ds)"

definition findByIdAndUpdate ::
  "nat \<Rightarrow> (invite \<Rightarrow> invite) \<Rightarrow> invite list \<Rightarrow> invite option \<times> invite list" where
  "findByIdAndUpdate i f db = (map_option f (find (\<lambda>d. oid d = i) db), updateOne i f db)"

text \<open>The identifier of a new document, different from every identifier in use.\<close>

definition new_oid :: "invite list \<Rightarrow> nat" where
  "new_oid db = Suc (foldr max (map oid db) 0)"

section \<open>\<open>InviteService\<close>\<close>

definition generateCode :: "generator \<Rightarrow> nat list \<Rightarrow> string" where
  "generateCode g bytes = generate g bytes"

definition isValidFormat :: "generator \<Rightarrow> string \<Rightarrow> bool" where
  "isValidFormat g c = validate g c"

subsection \<open>\<open>createInvite\<close>\<close>

definition maxAttempts :: nat where
  "maxAttempts = 10"

text \<open>
  The loop that looks for an unused code.  Its state is the last code generated (none
  before the first iteration) and \<open>attempts\<close>; the third component counts the calls of
  \<open>generateCode\<close>.  Iteration \<open>attempts\<close> is the one that makes call number \<open>attempts\<close> of
  \<open>crypto.randomBytes\<close>, since the counter moves exactly when the loop goes round.
\<close>

function unique_code_loop ::
  "generator \<Rightarrow> env \<Rightarrow> invite list \<Rightarrow> string option \<Rightarrow> nat \<Rightarrow> nat
     \<Rightarrow> string option \<times> nat \<times> nat" where
  "unique_code_loop g e db c attempts calls =
     (if attempts < maxAttempts then
        (let c' = generateCode g (randomBytes e attempts);
             exists = findOne_code db c'
         in if exists = None then (Some c', attempts, Suc calls)
            else unique_code_loop g e db (Some c') (Suc attempts) (Suc calls))
      else (c, attempts, calls))"
  by pat_completeness auto
termination
  by (relation "measure (\<lambda>(g, e, db, c, attempts, calls). maxAttempts - attempts)") auto

declare unique_code_loop.simps [simp del]

text \<open>
  The value the schema's setters make of an identity: lower-cased and trimmed.
\<close>

definition schema_email :: "string \<Rightarrow> string" where
  "schema_email s = trim (toLowerCase s)"

text \<open>
  \<open>new Date(t)\<close> is a date when \<open>t\<close> is within 8.64e15 milliseconds of the epoch, and an
  Invalid Date otherwise.  A document keeps the time value it was given; \<open>save\<close> refuses the
  document when that is not a date.
\<close>

definition valid_date :: "int \<Rightarrow> bool" where
  "valid_date t = (- 8640000000000000 \<le> t \<and> t \<le> 8640000000000000)"

text \<open>
  \<open>new Invite({ code, referrerEmail, maxUses, expiresAt })\<close> with the schema's setters and
  defaults, and \<open>save\<close>, which validates the document against the schema (\<open>code\<close> and
  \<open>referrerEmail\<close> required, \<open>maxUses\<close> at least 1, \<open>expiresAt\<close> a date), lets the unique
  index on \<open>code\<close> reject a duplicate, and appends the document.
\<close>

definition new_Invite :: "invite list \<Rightarrow> string \<Rightarrow> string \<Rightarrow> int \<Rightarrow> int \<Rightarrow> invite" where
  "new_Invite db c referrer maxU expires =
     \<lparr>oid = new_oid db, code = c, referrerEmail = schema_email referrer, maxUses = maxU,
      currentUses = 0, isActive = True, expiresAt = expires, usedBy = []\<rparr>"

definition save :: "invite \<Rightarrow> invite list \<Rightarrow> error + invite list" where
  "save d db =
     (if code d = [] \<or> referrerEmail d = [] \<or> maxUses d < 1 \<or> \<not> valid_date (expiresAt d)
      then Inl ValidationError
      else if findOne_code db (code d) \<noteq> None then Inl DuplicateKey
      else Inr (db @ [d]))"

text \<open>
  \<open>createInvite(referrerEmail, maxUses, expiresInDays)\<close>.  The result is the value
  returned or the error thrown, the state after the call, and the number of calls of
  \<open>generateCode\<close>.  A loop that leaves \<open>code\<close> undefined would hand \<open>save\<close> a document without
  its required code.  An error thrown before \<open>commitTransaction\<close> leaves the collection as
  it was.  An error thrown by \<open>redisClient.setex\<close> reaches the \<open>catch\<close> block after the
  commit: the block calls \<open>abortTransaction\<close> and throws the error again, and should
  \<open>abortTransaction\<close> itself throw on the committed session the call fails with that error
  instead; either way the call fails and the document stays.
\<close>

definition createInvite ::
  "generator \<Rightarrow> env \<Rightarrow> string \<Rightarrow> int \<Rightarrow> int \<Rightarrow> store \<Rightarrow> (error + invite) \<times> store \<times> nat" where
  "createInvite g e referrer maxU expiresInDays s =
     (case unique_code_loop g e (invites s) None 0 0 of
        (c, attempts, calls) \<Rightarrow>
          if attempts = maxAttempts then (Inl CodeSpaceExhausted, s, calls)
          else
            (case c of
               None \<Rightarrow> (Inl ValidationError, s, calls)
             | Some c' \<Rightarrow>
                (let invite = new_Invite (invites s) c' referrer maxU
                                (now e + expiresInDays * 24 * 60 * 60 * 1000)
                 in case save invite (invites s) of
                      Inl err \<Rightarrow> (Inl err, s, calls)
                    | Inr db' \<Rightarrow>
                        if redis_setex_fails e
                        then (Inl RedisError, s\<lparr>invites := db'\<rparr>, calls)
                        else (Inr invite,
                              s\<lparr>invites := db',
                                cache := (cache s)(code invite \<mapsto>
                                           cached_invite.truncate invite)\<rparr>,
                              calls))))"

subsection \<open>\<open>useInvite\<close>\<close>

text \<open>\<open>getFromCache(code)\<close>: a rejected \<open>get\<close> is logged and answered by \<open>null\<close>.\<close>

definition getFromCache :: "env \<Rightarrow> store \<Rightarrow> string \<Rightarrow> cached_invite option" where
  "getFromCache e s c = (if redis_get_fails e then None else cache s c)"

text \<open>
  The \<open>finally\<close> block: the script deletes the lock when it still holds this call's token;
  a rejected \<open>eval\<close> is logged and nothing else happens.
\<close>

definition release_lock :: "env \<Rightarrow> string \<Rightarrow> store \<Rightarrow> store" where
  "release_lock e c s =
     (if redis_eval_fails e then s
      else if locks s c = Some (lockId e) then s\<lparr>locks := (locks s)(c := None)\<rparr>
      else s)"

text \<open>The invite read in the \<open>try\<close> block: from the cache, else an active document.\<close>

definition load_invite :: "env \<Rightarrow> store \<Rightarrow> string \<Rightarrow> cached_invite option" where
  "load_invite e s c =
     (case getFromCache e s c of
        Some invite \<Rightarrow> Some invite
      | None \<Rightarrow> map_option cached_invite.truncate (findOne_active (invites s) c))"

text \<open>The update document of \<open>findByIdAndUpdate\<close>, built from the invite that was read.\<close>

definition use_update :: "env \<Rightarrow> cached_invite \<Rightarrow> string \<Rightarrow> string \<Rightarrow> invite \<Rightarrow> invite" where
  "use_update e invite userEmail ip d =
     d\<lparr>currentUses := currentUses d + 1,
       usedBy := usedBy d @ [\<lparr>email = userEmail, ipAddress = ip, usedAt = now e\<rparr>],
       isActive := (currentUses invite + 1 < maxUses invite)\<rparr>"

text \<open>
  The body of the \<open>try\<close> block, for the upper-cased code \<open>c\<close> whose format has been
  accepted.
\<close>

definition useInvite_try ::
  "env \<Rightarrow> string \<Rightarrow> string \<Rightarrow> string \<Rightarrow> store \<Rightarrow> (error + invite option) \<times> store" where
  "useInvite_try e c userEmail ip s =
     (if redis_set_fails e then (Inl RedisError, s)
      else if locks s c \<noteq> None then (Inl Contended, s)
      else
        (let s1 = s\<lparr>locks := (locks s)(c \<mapsto> lockId e)\<rparr> in
         case load_invite e s1 c of
           None \<Rightarrow> (Inl NotFound, s1)
         | Some invite \<Rightarrow>
             if currentUses invite \<ge> maxUses invite then (Inl MaxUsesReached, s1)
             else if now e > expiresAt invite then (Inl Expired, s1)
             else if findOne_usedBy (invites s1) userEmail \<noteq> None
               then (Inl IdentityAlreadyRedeemed, s1)
             else
               (case findByIdAndUpdate (oid invite) (use_update e invite userEmail ip) (invites s1) of
                  (updatedInvite, db') \<Rightarrow>
                    if redis_del_fails e then (Inl RedisError, s1\<lparr>invites := db'\<rparr>)
                    else (Inr updatedInvite,
                          s1\<lparr>invites := db', cache := (cache s1)(c := None)\<rparr>))))"

text \<open>\<open>useInvite(code, userEmail, ipAddress)\<close>.\<close>

definition useInvite ::
  "generator \<Rightarrow> env \<Rightarrow> string \<Rightarrow> string \<Rightarrow> string \<Rightarrow> store \<Rightarrow> (error + invite option) \<times> store" where
  "useInvite g e code0 userEmail ip s =
     (let c = toUpperCase code0 in
      if \<not> isValidFormat g c then (Inl InvalidFormat, s)
      else (case useInvite_try e c userEmail ip s of
              (r, s') \<Rightarrow> (r, release_lock e c s')))"

subsection \<open>\<open>getInviteStats\<close>\<close>

text \<open>
  The object returned by \<open>getInviteStats\<close>.  \<open>averageUsageRate\<close> is the number handed to
  \<open>toFixed(2)\<close>, in exact arithmetic: \<open>None\<close> stands for a value that is not finite (a
  division by a zero \<open>maxUses\<close>), and neither the rounding of floating-point arithmetic
  nor the formatting to two decimals is represented.
\<close>

record stats =
  totalInvites :: nat
  totalUses :: int
  activeInvites :: nat
  expiredInvites :: nat
  fullyUsedInvites :: nat
  averageUsageRate :: "rat option"

text \<open>\<open>Invite.find({ referrerEmail })\<close>; the value queried for goes through the setters.\<close>

definition find_referrer :: "invite list \<Rightarrow> string \<Rightarrow> invite list" where
  "find_referrer db referrer = filter (\<lambda>d. referrerEmail d = schema_email referrer) db"

text \<open>\<open>sum + (inv.currentUses / inv.maxUses)\<close>.\<close>

definition add_ratio :: "rat option \<Rightarrow> invite \<Rightarrow> rat option" where
  "add_ratio acc d =
     (case acc of
        None \<Rightarrow> None
      | Some x \<Rightarrow>
          if maxUses d = 0 then None
          else Some (x + of_int (currentUses d) / of_int (maxUses d)))"

definition getInviteStats :: "int \<Rightarrow> string \<Rightarrow> invite list \<Rightarrow> stats" where
  "getInviteStats t referrer db =
     (let invs = find_referrer db referrer in
      \<lparr>totalInvites = length invs,
       totalUses = foldl (\<lambda>acc d. acc + currentUses d) 0 invs,
       activeInvites = length (filter (\<lambda>d. isActive d \<and> expiresAt d > t) invs),
       expiredInvites = length (filter (\<lambda>d. expiresAt d \<le> t) invs),
       fullyUsedInvites = length (filter (\<lambda>d. currentUses d \<ge> maxUses d) invs),
       averageUsageRate =
         (if length invs > 0
          then map_option (\<lambda>x. x / of_nat (length invs) * 100) (foldl add_ratio (Some 0) invs)
          else Some 0)\<rparr>)"

section \<open>Concurrent calls of \<open>useInvite\<close>\<close>

text \<open>
  A call of \<open>useInvite\<close> runs without interruption up to its next \<open>await\<close>; each awaited
  command is executed by Redis or by the database at one instant.  A call in progress is
  therefore at one of the following points, named by the command it sends next: the
  \<open>SET ... NX\<close> of the lock, the \<open>GET\<close> of the cache entry, the query for an active document,
  the query for the identity, the update, the \<open>DEL\<close> of the cache entry, and the \<open>EVAL\<close>
  of the \<open>finally\<close> block, which carries the outcome of the \<open>try\<close> block.
\<close>

datatype pc =
    Start
  | GetCache
  | FindActive
  | FindIdentity cached_invite
  | Update cached_invite
  | DelCache "invite option"
  | Release "error + invite option"
  | Done "error + invite option"

record request =
  req_env :: env
  req_code :: string
  req_email :: string
  req_ip :: string

text \<open>The two rule checks made, without any \<open>await\<close>, as soon as the invite is read.\<close>

definition check_loaded :: "env \<Rightarrow> cached_invite \<Rightarrow> pc" where
  "check_loaded e invite =
     (if currentUses invite \<ge> maxUses invite then Release (Inl MaxUsesReached)
      else if now e > expiresAt invite then Release (Inl Expired)
      else FindIdentity invite)"

text \<open>One step of one call: the command it is waiting to send, and the code up to the next.\<close>

fun useInvite_step :: "generator \<Rightarrow> request \<Rightarrow> pc \<times> store \<Rightarrow> pc \<times> store" where
  "useInvite_step g rq (Start, s) =
     (let c = toUpperCase (req_code rq); e = req_env rq in
      if \<not> isValidFormat g c then (Done (Inl InvalidFormat), s)
      else if redis_set_fails e then (Release (Inl RedisError), s)
      else if locks s c \<noteq> None then (Release (Inl Contended), s)
      else (GetCache, s\<lparr>locks := (locks s)(c \<mapsto> lockId e)\<rparr>))"
| "useInvite_step g rq (GetCache, s) =
     (let c = toUpperCase (req_code rq); e = req_env rq in
      case getFromCache e s c of
        Some invite \<Rightarrow> (check_loaded e invite, s)
      | None \<Rightarrow> (FindActive, s))"
| "useInvite_step g rq (FindActive, s) =
     (let c = toUpperCase (req_code rq); e = req_env rq in
      case findOne_active (invites s) c of
        None \<Rightarrow> (Release (Inl NotFound), s)
      | Some d \<Rightarrow> (check_loaded e (cached_invite.truncate d), s))"
| "useInvite_step g rq (FindIdentity invite, s) =
     (if findOne_usedBy (invites s) (req_email rq) \<noteq> None
      then (Release (Inl IdentityAlreadyRedeemed), s)
      else (Update invite, s))"
| "useInvite_step g rq (Update invite, s) =
     (case findByIdAndUpdate (oid invite)
             (use_update (req_env rq) invite (req_email rq) (req_ip rq)) (invites s) of
        (updatedInvite, db') \<Rightarrow> (DelCache updatedInvite, s\<lparr>invites := db'\<rparr>))"
| "useInvite_step g rq (DelCache updatedInvite, s) =
     (if redis_del_fails (req_env rq) then (Release (Inl RedisError), s)
      else (Release (Inr updatedInvite),
            s\<lparr>cache := (cache s)(toUpperCase (req_code rq) := None)\<rparr>))"
| "useInvite_step g rq (Release r, s) =
     (Done r, release_lock (req_env rq) (toUpperCase (req_code rq)) s)"
| "useInvite_step g rq (Done r, s) = (Done r, s)"

text \<open>
  Several calls in progress over one state.  A schedule names, step by step, the call
  whose pending command is executed next.
\<close>

fun run_schedule ::
  "generator \<Rightarrow> request list \<Rightarrow> nat list \<Rightarrow> pc list \<times> store \<Rightarrow> pc list \<times> store" where
  "run_schedule g rqs [] cfg = cfg"
| "run_schedule g rqs (i # sched) (pcs, s) =
     (if i < length rqs \<and> i < length pcs
      then (case useInvite_step g (rqs ! i) (pcs ! i, s) of
              (p', s') \<Rightarrow> run_schedule g rqs sched (pcs[i := p'], s'))
      else run_schedule g rqs sched (pcs, s))"

definition succeeded :: "pc \<Rightarrow> bool" where
  "succeeded p = (case p of Done (Inr r) \<Rightarrow> True | _ \<Rightarrow> False)"

definition failed :: "pc \<Rightarrow> bool" where
  "failed p = (case p of Done (Inl err) \<Rightarrow> True | _ \<Rightarrow> False)"

section \<open>Notions used to state the properties\<close>

text \<open>
  An alphabet the codec is written for: not empty, of ASCII characters, already in upper
  case, and without the separator.
\<close>

definition alphabet_ok :: "string \<Rightarrow> bool" where
  "alphabet_ok a =
     (a \<noteq> [] \<and> list_all is_ascii a \<and> toUpperCase a = a \<and> \<not> str_includes a (CHR ''-''))"




text \<open>
  The configuration of the repository's codec tests, an environment in which every Redis
  command is served and every draw of random bytes is \<open>0, 1, ..., 13\<close> (so that every
  generated code is \<open>K7QX-2N5X\<close>), and the empty state.
\<close>

definition test_generator :: generator where
  "test_generator = \<lparr>alphabet = ''K7Q2N5XR8BMVY9CW3PFGJH6DZT4SL'', salt = ''TestSalt2024''\<rparr>"

definition test_env :: env where
  "test_env =
     \<lparr>now = 1700000000000, lockId = ''token-1'',
      randomBytes = (\<lambda>k. [0, 1, 2, 3, 4, 5, 6, 7, 8, 9, 10, 11, 12, 13]),
      redis_set_fails = False, redis_get_fails = False, redis_del_fails = False,
      redis_setex_fails = False, redis_eval_fails = False\<rparr>"

definition empty_store :: store where
  "empty_store = \<lparr>invites = [], cache = Map.empty, locks = Map.empty\<rparr>"

text \<open>
  The scenario of the unit test "should reject max used invite": an invite with
  \<open>maxUses = 1\<close> is issued for \<open>admin@test.com\<close> and redeemed once by \<open>user@test.com\<close>.
\<close>

definition store_issued :: store where
  "store_issued = fst (snd (createInvite test_generator test_env ''admin@test.com'' 1 30 empty_store))"

definition store_redeemed :: store where
  "store_redeemed =
     snd (useInvite test_generator test_env ''K7QX-2N5X'' ''user@test.com'' ''127.0.0.1''
            store_issued)"

text \<open>
  A document with the given counters, flag and expiry whose only redemption is by
  \<open>user@test.com\<close>, and the state that holds just this document.
\<close>

definition sample_invite :: "int \<Rightarrow> int \<Rightarrow> bool \<Rightarrow> int \<Rightarrow> invite" where
  "sample_invite maxU cur active expires =
     \<lparr>oid = 1, code = ''K7QX-2N5X'', referrerEmail = ''admin@test.com'', maxUses = maxU,
      currentUses = cur, isActive = active, expiresAt = expires,
      usedBy = [\<lparr>email = ''user@test.com'', ipAddress = ''127.0.0.1'', usedAt = 0\<rparr>]\<rparr>"

definition sample_store :: "invite \<Rightarrow> store" where
  "sample_store d = \<lparr>invites = [d], cache = Map.empty, locks = Map.empty\<rparr>"

text \<open>The code generated by attempt \<open>k\<close> of \<open>createInvite\<close>, and whether a code is in use.\<close>

definition attempt_code :: "generator \<Rightarrow> env \<Rightarrow> nat \<Rightarrow> string" where
  "attempt_code g e k = generateCode g (randomBytes e k)"

definition code_taken :: "invite list \<Rightarrow> string \<Rightarrow> bool" where
  "code_taken db c = (\<exists>d \<in> set db. code d = c)"

text \<open>
  What the schema demands of a new document besides its code: a creator identity that is
  not blank, \<open>maxUses\<close> of at least 1, and an expiry that is a date.
\<close>

definition schema_accepts :: "string \<Rightarrow> int \<Rightarrow> int \<Rightarrow> bool" where
  "schema_accepts referrer maxU expires =
     (schema_email referrer \<noteq> [] \<and> 1 \<le> maxU \<and> valid_date expires)"

text \<open>
  The scenario of the unit test "should handle concurrent requests": an invite with
  \<open>maxUses = 2\<close> is issued, and five calls of \<open>useInvite\<close> for it are started together, by
  \<open>user0@test.com\<close>, ..., \<open>user4@test.com\<close>, each with a lock token of its own.
\<close>

definition store_issued2 :: store where
  "store_issued2 =
     fst (snd (createInvite test_generator test_env ''admin@test.com'' 2 30 empty_store))"

definition concurrent_request :: "char \<Rightarrow> request" where
  "concurrent_request i =
     \<lparr>req_env = test_env\<lparr>lockId := ''token-'' @ [i]\<rparr>, req_code = ''K7QX-2N5X'',
      req_email = ''user'' @ [i] @ ''@test.com'', req_ip = ''127.0.0.1''\<rparr>"

definition concurrent_requests :: "request list" where
  "concurrent_requests = map concurrent_request ''01234''"

text \<open>
  Every call sends its first command, the \<open>SET ... NX\<close> of the lock, before any reply is
  handled (each runs up to its first \<open>await\<close> when it is started); then the calls proceed.
\<close>

definition test_schedule :: "nat list" where
  "test_schedule = [0, 1, 2, 3, 4] @ [1, 2, 3, 4] @ [1, 2, 3, 4] @ [0, 0, 0, 0, 0, 0]"

text \<open>The calls made one after the other.\<close>

definition sequential_schedule :: "nat list" where
  "sequential_schedule = concat (map (replicate 7) [0, 1, 2, 3, 4])"

section \<open>Properties of the codec\<close>

subsection \<open>Auxiliary facts\<close>

lemma foldl_add_upt:
  "foldl (\<lambda>s i. s + f i) (a::int) [0..<n] = a + (\<Sum>i<n. f i)"
  by (induction n) simp_all

lemma indexOf_mem:
  "c \<in> set s \<Longrightarrow>
     0 \<le> indexOf s c \<and> indexOf s c < int (length s) \<and> s ! nat (indexOf s c) = c"
  by (induction s) (auto simp: Let_def nat_add_distrib)

lemma weighted_sum_eq:
  "weighted_sum g str = (\<Sum>i<length str. indexOf (alphabet g) (str ! i) * (int (i mod 2) + 1))"
  unfolding weighted_sum_def by (simp add: foldl_add_upt)

lemma weighted_sum_nonneg:
  assumes "set str \<subseteq> set (alphabet g)"
  shows "0 \<le> weighted_sum g str"
  unfolding weighted_sum_eq
proof (rule sum_nonneg)
  fix i assume "i \<in> {..<length str}"
  then have "str ! i \<in> set (alphabet g)" using assms by auto
  then have "0 \<le> indexOf (alphabet g) (str ! i)" using indexOf_mem by blast
  then show "0 \<le> indexOf (alphabet g) (str ! i) * (int (i mod 2) + 1)" by simp
qed

lemma salted_sum_eq:
  "salted_sum g s0 = s0 + (\<Sum>i<length (salt g). charCode (salt g ! i))"
  unfolding salted_sum_def by (simp add: foldl_add_upt)

lemma charCode_nonneg: "0 \<le> charCode c"
  by (simp add: charCode_def)

lemma salted_sum_ge: "s0 \<le> salted_sum g s0"
  unfolding salted_sum_eq by (simp add: sum_nonneg charCode_nonneg)

lemma js_rem_nonneg: "0 \<le> a \<Longrightarrow> 0 < b \<Longrightarrow> js_rem (Some a) b = Some (a mod b)"
  by (simp add: js_rem_def)

lemma checksum_in_alphabet:
  assumes "alphabet g \<noteq> []" "set str \<subseteq> set (alphabet g)"
  shows "calculateChecksum g str =
           Some (alphabet g ! nat (salted_sum g (weighted_sum g str) mod base g))"
    and "alphabet g ! nat (salted_sum g (weighted_sum g str) mod base g) \<in> set (alphabet g)"
proof -
  have b: "0 < base g" using assms(1) by (simp add: base_def)
  have s: "0 \<le> salted_sum g (weighted_sum g str)"
    using weighted_sum_nonneg[OF assms(2)] salted_sum_ge[of "weighted_sum g str" g] by linarith
  have m: "0 \<le> salted_sum g (weighted_sum g str) mod base g"
          "salted_sum g (weighted_sum g str) mod base g < base g"
    using b by simp_all
  show "calculateChecksum g str =
           Some (alphabet g ! nat (salted_sum g (weighted_sum g str) mod base g))"
    using m b s unfolding calculateChecksum_def
    by (simp add: js_rem_nonneg charAt_def) (simp add: base_def)
  show "alphabet g ! nat (salted_sum g (weighted_sum g str) mod base g) \<in> set (alphabet g)"
    using m by (simp add: base_def)
qed

lemma generateRandomChars_eq:
  assumes "alphabet g \<noteq> []" and "n \<le> length bytes"
  shows "generateRandomChars g n bytes =
           map (\<lambda>i. alphabet g ! (bytes ! i mod length (alphabet g))) [0..<n]"
proof -
  have b: "0 < base g" using assms(1) by (simp add: base_def)
  have step: "str_of (charAt (alphabet g) (js_rem (byteAt bytes i) (base g)))
              = [alphabet g ! (bytes ! i mod length (alphabet g))]" if "i < length bytes" for i
  proof -
    have "js_rem (byteAt bytes i) (base g) = Some (int (bytes ! i) mod base g)"
      using b that by (simp add: js_rem_nonneg byteAt_def)
    moreover have "int (bytes ! i) mod base g = int (bytes ! i mod length (alphabet g))"
      by (simp add: base_def zmod_int)
    moreover have "bytes ! i mod length (alphabet g) < length (alphabet g)"
      using assms(1) by simp
    ultimately show ?thesis
      by (simp add: charAt_def str_of_def)
  qed
  have "foldl (\<lambda>result i.
                 result @ str_of (charAt (alphabet g) (js_rem (byteAt bytes i) (base g))))
          a [0..<m] =
        a @ map (\<lambda>i. alphabet g ! (bytes ! i mod length (alphabet g))) [0..<m]"
    if "m \<le> length bytes" for m a
    using that by (induction m) (simp_all add: step)
  then show ?thesis
    unfolding generateRandomChars_def using assms(2) by simp
qed

lemma generateRandomChars_props:
  assumes "alphabet g \<noteq> []" and "n \<le> length bytes"
  shows "length (generateRandomChars g n bytes) = n"
    and "set (generateRandomChars g n bytes) \<subseteq> set (alphabet g)"
  using assms by (auto simp: generateRandomChars_eq)

lemma upper_char_dash: "upper_char (CHR ''-'') = CHR ''-''"
  by (simp add: upper_char_def)

lemma toUpperCase_stable:
  assumes "toUpperCase a = a" "set s \<subseteq> set a"
  shows "toUpperCase s = s"
proof -
  have "\<forall>c \<in> set a. upper_char c = c"
    using assms(1) unfolding toUpperCase_def by (simp add: map_idI list.map_ident_strong map_eq_conv[where g=id, simplified] )
  then show ?thesis using assms(2) unfolding toUpperCase_def by (simp add: map_idI subset_iff)
qed

subsection \<open>Generated codes validate\<close>

lemma replace_dash_separator:
  assumes "CHR ''-'' \<notin> set xs"
  shows "replace_dash (xs @ CHR ''-'' # ys) = xs @ ys"
  using assms unfolding replace_dash_def by (simp add: remove1_append)

text \<open>
  Claim C3, as stated: every code produced by \<open>generate\<close> is accepted by \<open>validate\<close>,
  whatever the configured alphabet.  It fails for an alphabet with lower-case symbols:
  with the alphabet \<open>abcdefghjkmnpqrstuvwxyz23456789\<close> and the salt \<open>TestSalt2024\<close>, the
  bytes \<open>0, 1, ..., 13\<close> generate \<open>abc6-defg\<close>, which \<open>validate\<close> upper-cases to
  \<open>ABC6-DEFG\<close> and rejects, its symbols not being in the alphabet.  It fails as well for
  an alphabet that contains the separator: with \<open>-7Q2N5XR8BMVY9CW3PFGJH6DZT4SL\<close> the same
  bytes generate \<open>-7QX-2N5X\<close>, of which \<open>validate\<close> removes the first dash, not the
  separator.
\<close>

theorem C3_validate_generate_counterexample:
  "\<not> validate \<lparr>alphabet = ''abcdefghjkmnpqrstuvwxyz23456789'', salt = ''TestSalt2024''\<rparr>
       (generate \<lparr>alphabet = ''abcdefghjkmnpqrstuvwxyz23456789'', salt = ''TestSalt2024''\<rparr>
          [0, 1, 2, 3, 4, 5, 6, 7, 8, 9, 10, 11, 12, 13]) \<and>
   \<not> validate \<lparr>alphabet = ''-7Q2N5XR8BMVY9CW3PFGJH6DZT4SL'', salt = ''TestSalt2024''\<rparr>
       (generate \<lparr>alphabet = ''-7Q2N5XR8BMVY9CW3PFGJH6DZT4SL'', salt = ''TestSalt2024''\<rparr>
          [0, 1, 2, 3, 4, 5, 6, 7, 8, 9, 10, 11, 12, 13])"
  by code_simp

text \<open>
  Claim C3, amended: when the configured alphabet is not empty, consists of ASCII
  characters, is in upper case and does not contain the separator, every code produced by
  \<open>generate\<close>, for every outcome of the 14 random bytes and every salt, is accepted by
  \<open>validate\<close>.
\<close>

theorem C3_validate_generate:
  assumes "alphabet_ok (alphabet g)" and "length bytes = 14"
  shows "validate g (generate g bytes)"
proof -
  define rc where "rc = generateRandomChars g 7 bytes"
  define ck where "ck = alphabet g ! nat (salted_sum g (weighted_sum g rc) mod base g)"
  define cd where "cd = take 3 rc @ [ck] @ drop 3 rc"
  have ne: "alphabet g \<noteq> []" and up: "toUpperCase (alphabet g) = alphabet g"
    and nd: "CHR ''-'' \<notin> set (alphabet g)"
    using assms(1) by (simp_all add: alphabet_ok_def str_includes_def)
  have b7: "7 \<le> length bytes" using assms(2) by simp
  have len: "length rc = 7" and sub: "set rc \<subseteq> set (alphabet g)"
    unfolding rc_def using generateRandomChars_props[OF ne b7] by simp_all
  have cs: "calculateChecksum g rc = Some ck" and ckin: "ck \<in> set (alphabet g)"
    unfolding ck_def using checksum_in_alphabet[OF ne sub] by simp_all
  have gen: "generate g bytes = take 4 cd @ ''-'' @ drop 4 cd"
    unfolding generate_def Let_def rc_def[symmetric] cs cd_def by (simp add: str_of_def)
  have clen: "length cd = 8" unfolding cd_def using len by simp
  have csub: "set cd \<subseteq> set (alphabet g)"
  proof -
    have "set (take 3 rc) \<subseteq> set rc" "set (drop 3 rc) \<subseteq> set rc"
      by (simp_all add: set_take_subset set_drop_subset)
    then show ?thesis unfolding cd_def using sub ckin by auto
  qed
  have t4: "set (take 4 cd) \<subseteq> set (alphabet g)" "set (drop 4 cd) \<subseteq> set (alphabet g)"
    using csub set_take_subset[of 4 cd] set_drop_subset[of 4 cd] by blast+
  have upc: "toUpperCase (take 4 cd) = take 4 cd" "toUpperCase (drop 4 cd) = drop 4 cd"
    using toUpperCase_stable[OF up] t4 by simp_all
  have "toUpperCase (generate g bytes) = take 4 cd @ CHR ''-'' # drop 4 cd"
    unfolding gen using upc by (simp add: toUpperCase_def upper_char_dash)
  moreover have "CHR ''-'' \<notin> set (take 4 cd)" using t4(1) nd by blast
  ultimately have clean: "replace_dash (toUpperCase (generate g bytes)) = cd"
    by (simp add: replace_dash_separator)
  have c3: "cd ! 3 = ck" unfolding cd_def using len by (simp add: nth_append)
  have orig: "take 3 cd @ drop 4 cd = rc"
    unfolding cd_def using len by simp
  have allin: "\<not> (\<exists>c \<in> set cd. \<not> str_includes (alphabet g) c)"
    using csub by (auto simp: str_includes_def)
  show ?thesis
    unfolding validate_def Let_def clean using clen allin c3 orig cs by simp
qed

theorem C3_validate_generate_witness:
  "alphabet_ok ''K7Q2N5XR8BMVY9CW3PFGJH6DZT4SL'' \<and>
   validate \<lparr>alphabet = ''K7Q2N5XR8BMVY9CW3PFGJH6DZT4SL'', salt = ''TestSalt2024''\<rparr>
     (generate \<lparr>alphabet = ''K7Q2N5XR8BMVY9CW3PFGJH6DZT4SL'', salt = ''TestSalt2024''\<rparr>
        [200, 31, 29, 3, 4, 5, 6, 7, 8, 9, 10, 11, 12, 13])"
proof -
  have h: "alphabet_ok
             (alphabet \<lparr>alphabet = ''K7Q2N5XR8BMVY9CW3PFGJH6DZT4SL'', salt = ''TestSalt2024''\<rparr>)"
    by code_simp
  have l: "length [200, 31, 29, 3, 4, 5, 6, 7, 8, 9, 10, 11, 12, 13 :: nat] = 14" by simp
  show ?thesis using h C3_validate_generate[OF h l] by simp
qed

subsection \<open>The salt and the checksum\<close>

lemma salted_sum_shift: "salted_sum g s0 = s0 + salted_sum g 0"
  by (simp add: salted_sum_eq)

lemma checksum_index:
  assumes "alphabet g \<noteq> []" "set str \<subseteq> set (alphabet g)"
  shows "calculateChecksum g str =
           Some (alphabet g ! nat ((weighted_sum g str + salted_sum g 0) mod base g))"
  using checksum_in_alphabet(1)[OF assms] salted_sum_shift[of g "weighted_sum g str"] by simp

lemma nat_mod_less_length: "xs \<noteq> [] \<Longrightarrow> nat (x mod int (length xs)) < length xs"
proof -
  assume "xs \<noteq> []"
  then have "0 \<le> x mod int (length xs)" "x mod int (length xs) < int (length xs)" by simp_all
  then show ?thesis by linarith
qed

lemma weighted_sum_alphabet:
  "alphabet g2 = alphabet g1 \<Longrightarrow> weighted_sum g2 str = weighted_sum g1 str"
  by (simp add: weighted_sum_def)

text \<open>
  Claim C6, as stated: the checksum is a function of the symbols, the alphabet and the
  salt, and two distinct salts give different checksums on every string of seven
  alphabet symbols.  The second part fails: the salt enters the sum only through the sum
  of its character codes, so \<open>ab\<close> and \<open>ba\<close> give the same checksum.
\<close>

theorem C6_same_checksum_counterexample:
  "''ab'' \<noteq> ''ba'' \<and>
   calculateChecksum \<lparr>alphabet = ''K7Q2N5XR8BMVY9CW3PFGJH6DZT4SL'', salt = ''ab''\<rparr> ''K7Q2N5X'' =
   calculateChecksum \<lparr>alphabet = ''K7Q2N5XR8BMVY9CW3PFGJH6DZT4SL'', salt = ''ba''\<rparr> ''K7Q2N5X''"
  by code_simp

text \<open>
  Claim C6, amended: the checksum is determined by the symbols, the alphabet and the
  salt, and the salt acts only through the sum of its character codes modulo the size
  \<open>B\<close> of the alphabet.  For an alphabet of distinct symbols and a string over it, two
  salts give the same checksum exactly when their character-code sums are congruent
  modulo \<open>B\<close>; otherwise the checksums differ.
\<close>

theorem C6_checksum_salt:
  assumes "alphabet g2 = alphabet g1" "alphabet g1 \<noteq> []" "distinct (alphabet g1)"
    and "set str \<subseteq> set (alphabet g1)"
  shows "(calculateChecksum g1 str = calculateChecksum g2 str) =
         (salted_sum g1 0 mod base g1 = salted_sum g2 0 mod base g1)"
proof -
  define B where "B = base g1"
  define w where "w = weighted_sum g1 str"
  have B: "0 < B" "base g2 = B" "B = int (length (alphabet g1))"
    using assms(1,2) by (simp_all add: B_def base_def)
  have c1: "calculateChecksum g1 str = Some (alphabet g1 ! nat ((w + salted_sum g1 0) mod B))"
    using checksum_index[OF assms(2,4)] by (simp add: w_def B_def)
  have c2: "calculateChecksum g2 str = Some (alphabet g1 ! nat ((w + salted_sum g2 0) mod B))"
    using checksum_index[of g2 str] assms weighted_sum_alphabet[OF assms(1), of str] B
    by (simp add: w_def)
  have r1: "nat ((w + salted_sum g1 0) mod B) < length (alphabet g1)"
    and r2: "nat ((w + salted_sum g2 0) mod B) < length (alphabet g1)"
    unfolding B(3) using nat_mod_less_length[OF assms(2)] by blast+
  have "(calculateChecksum g1 str = calculateChecksum g2 str) =
        (nat ((w + salted_sum g1 0) mod B) = nat ((w + salted_sum g2 0) mod B))"
    unfolding c1 c2 using nth_eq_iff_index_eq[OF assms(3) r1 r2] by simp
  also have "\<dots> = ((w + salted_sum g1 0) mod B = (w + salted_sum g2 0) mod B)"
    using B(1) by (simp add: nat_eq_iff)
  also have "\<dots> = (salted_sum g1 0 mod B = salted_sum g2 0 mod B)"
    by (simp add: mod_eq_dvd_iff)
  finally show ?thesis by (simp add: B_def)
qed

theorem C6_checksum_salt_witness:
  "calculateChecksum \<lparr>alphabet = ''K7Q2N5XR8BMVY9CW3PFGJH6DZT4SL'', salt = ''TestSalt2024''\<rparr> ''K7Q2N5X'' \<noteq>
   calculateChecksum \<lparr>alphabet = ''K7Q2N5XR8BMVY9CW3PFGJH6DZT4SL'', salt = ''DifferentSalt''\<rparr> ''K7Q2N5X''"
proof -
  let ?g1 = "\<lparr>alphabet = ''K7Q2N5XR8BMVY9CW3PFGJH6DZT4SL'', salt = ''TestSalt2024''\<rparr>"
  let ?g2 = "\<lparr>alphabet = ''K7Q2N5XR8BMVY9CW3PFGJH6DZT4SL'', salt = ''DifferentSalt''\<rparr>"
  have h1: "alphabet ?g2 = alphabet ?g1" by simp
  have h2: "alphabet ?g1 \<noteq> []" by simp
  have h3: "distinct (alphabet ?g1)" by code_simp
  have h4: "set ''K7Q2N5X'' \<subseteq> set (alphabet ?g1)" by code_simp
  have n: "salted_sum ?g1 0 mod base ?g1 \<noteq> salted_sum ?g2 0 mod base ?g1" by code_simp
  show ?thesis using C6_checksum_salt[OF h1 h2 h3 h4] n by simp
qed

subsection \<open>Single-character mutations\<close>

lemma of_char_upper_char:
  "(of_char (upper_char c) :: nat) =
     (if 97 \<le> (of_char c :: nat) \<and> (of_char c :: nat) \<le> 122 then of_char c - 32 else of_char c)"
proof (cases "97 \<le> (of_char c :: nat) \<and> (of_char c :: nat) \<le> 122")
  case True
  then have "(of_char c :: nat) - 32 < 256" by linarith
  then have "((of_char c :: nat) - 32) mod 256 = of_char c - 32" by (rule mod_less)
  then show ?thesis using True by (simp add: upper_char_def)
next
  case False
  then show ?thesis by (auto simp: upper_char_def)
qed












lemma validate_clean:
  "validate g c =
     (length (replace_dash (toUpperCase c)) = 8 \<and>
      set (replace_dash (toUpperCase c)) \<subseteq> set (alphabet g) \<and>
      Some (replace_dash (toUpperCase c) ! 3) =
        calculateChecksum g (take 3 (replace_dash (toUpperCase c)) @
                             drop 4 (replace_dash (toUpperCase c))))"
proof -
  have "(\<exists>x \<in> set xs. \<not> str_includes a x) = (\<not> set xs \<subseteq> set a)" for xs a
    unfolding str_includes_def by blast
  then show ?thesis
    unfolding validate_def Let_def by simp
qed




text \<open>
  A code that \<open>validate\<close> accepts over an ASCII alphabet is ASCII itself, so that the
  upper-casing above is the one of the source on it and on its mutations.
\<close>

lemma validate_ascii:
  assumes "list_all is_ascii (alphabet g)" and "validate g c"
  shows "list_all is_ascii c"
proof -
  have sub: "set (replace_dash (toUpperCase c)) \<subseteq> set (alphabet g)"
    using assms(2) unfolding validate_clean by simp
  have "is_ascii ch" if "ch \<in> set c" for ch
  proof -
    have u: "upper_char ch \<in> set (toUpperCase c)"
      using that by (simp add: toUpperCase_def)
    have "is_ascii (upper_char ch)"
    proof (cases "upper_char ch = CHR ''-''")
      case True
      then show ?thesis by (simp add: is_ascii_def)
    next
      case False
      then have "upper_char ch \<in> set (replace_dash (toUpperCase c))"
        using u by (simp add: replace_dash_def in_set_remove1)
      then show ?thesis using sub assms(1) by (auto simp: list_all_iff)
    qed
    then show ?thesis
      unfolding is_ascii_def of_char_upper_char by (simp split: if_splits)
  qed
  then show ?thesis by (simp add: list_all_iff)
qed




section \<open>Properties of the service\<close>

subsection \<open>Auxiliary facts\<close>

lemma load_invite_locks [simp]:
  "load_invite e (s\<lparr>locks := l\<rparr>) c = load_invite e s c"
  by (simp add: load_invite_def getFromCache_def split: option.splits)

lemma release_lock_invites [simp]: "invites (release_lock e c s) = invites s"
  by (simp add: release_lock_def)

lemma findOne_usedBy_None:
  "(findOne_usedBy db userEmail = None) = (\<not> (\<exists>d \<in> set db. \<exists>u \<in> set (usedBy d). email u = userEmail))"
  by (auto simp: findOne_usedBy_def find_None_iff)

lemma useInvite_loaded:
  assumes "isValidFormat g (toUpperCase code0)" "\<not> redis_set_fails e"
    and "locks s (toUpperCase code0) = None"
    and "load_invite e s (toUpperCase code0) = Some invite"
  shows "fst (useInvite g e code0 userEmail ip s) =
          (if maxUses invite \<le> currentUses invite then Inl MaxUsesReached
           else if expiresAt invite < now e then Inl Expired
           else if findOne_usedBy (invites s) userEmail \<noteq> None then Inl IdentityAlreadyRedeemed
           else if redis_del_fails e then Inl RedisError
           else Inr (map_option (use_update e invite userEmail ip)
                       (find (\<lambda>d. oid d = oid invite) (invites s))))"
  using assms
  by (simp add: useInvite_def useInvite_try_def Let_def findByIdAndUpdate_def split: prod.splits)


subsection \<open>The order of the redemption rules\<close>

text \<open>
  Claim C4: once \<open>useInvite\<close> has accepted the format, taken the lock and read an invite
  (from the cache or from the collection), it reports the first failing rule in the order
  uses, expiry, identity.  A record at its maximum of uses fails with \<open>MaxUsesReached\<close>
  whether or not it is expired; a record below its maximum that is expired fails with
  \<open>Expired\<close> whether or not the identity has redeemed before; and only a record that
  passes both fails with \<open>IdentityAlreadyRedeemed\<close> for an identity found in some
  document's \<open>usedBy\<close> list.
\<close>

theorem C4_rule_order:
  assumes "isValidFormat g (toUpperCase code0)" and "\<not> redis_set_fails e"
    and "locks s (toUpperCase code0) = None"
    and "load_invite e s (toUpperCase code0) = Some invite"
  shows "(maxUses invite \<le> currentUses invite \<longrightarrow>
            fst (useInvite g e code0 userEmail ip s) = Inl MaxUsesReached) \<and>
         (currentUses invite < maxUses invite \<and> expiresAt invite < now e \<longrightarrow>
            fst (useInvite g e code0 userEmail ip s) = Inl Expired) \<and>
         (currentUses invite < maxUses invite \<and> now e \<le> expiresAt invite \<and>
          (\<exists>d \<in> set (invites s). \<exists>u \<in> set (usedBy d). email u = userEmail) \<longrightarrow>
            fst (useInvite g e code0 userEmail ip s) = Inl IdentityAlreadyRedeemed)"
  unfolding useInvite_loaded[OF assms] using findOne_usedBy_None[of "invites s" userEmail]
  by auto


theorem C4_rule_order_witness:
  "fst (useInvite test_generator test_env ''K7QX-2N5X'' ''user@test.com'' ''10.0.0.1''
          (sample_store (sample_invite 1 1 True 5))) = Inl MaxUsesReached \<and>
   fst (useInvite test_generator test_env ''K7QX-2N5X'' ''user@test.com'' ''10.0.0.1''
          (sample_store (sample_invite 2 1 True 5))) = Inl Expired \<and>
   fst (useInvite test_generator test_env ''K7QX-2N5X'' ''user@test.com'' ''10.0.0.1''
          (sample_store (sample_invite 2 1 True 1700000000000))) = Inl IdentityAlreadyRedeemed"
proof -
  have f: "isValidFormat test_generator (toUpperCase ''K7QX-2N5X'')" by code_simp
  have r: "\<not> redis_set_fails test_env" by (simp add: test_env_def)
  have l: "locks (sample_store d) (toUpperCase ''K7QX-2N5X'') = None" for d
    by (simp add: sample_store_def)
  have u: "toUpperCase ''K7QX-2N5X'' = ''K7QX-2N5X''" by code_simp
  have ld: "load_invite test_env (sample_store (sample_invite m c True x))
              (toUpperCase ''K7QX-2N5X'') =
            Some (cached_invite.truncate (sample_invite m c True x))" for m c x
    unfolding u
    by (simp add: load_invite_def getFromCache_def test_env_def sample_store_def
          findOne_active_def sample_invite_def)
  have ex: "\<exists>d \<in> set (invites (sample_store (sample_invite m c True x))).
              \<exists>u \<in> set (usedBy d). email u = ''user@test.com''" for m c x
    by (simp add: sample_store_def sample_invite_def)
  have n: "now test_env = 1700000000000" by (simp add: test_env_def)
  have a: "fst (useInvite test_generator test_env ''K7QX-2N5X'' ''user@test.com'' ''10.0.0.1''
          (sample_store (sample_invite 1 1 True 5))) = Inl MaxUsesReached"
    using C4_rule_order[OF f r l ld, of 1 1 5 "''user@test.com''" "''10.0.0.1''"]
    by (simp add: sample_invite_def cached_invite.defs)
  have b: "fst (useInvite test_generator test_env ''K7QX-2N5X'' ''user@test.com'' ''10.0.0.1''
          (sample_store (sample_invite 2 1 True 5))) = Inl Expired"
    using C4_rule_order[OF f r l ld, of 2 1 5 "''user@test.com''" "''10.0.0.1''"] n
    by (simp add: sample_invite_def cached_invite.defs)
  have c: "fst (useInvite test_generator test_env ''K7QX-2N5X'' ''user@test.com'' ''10.0.0.1''
          (sample_store (sample_invite 2 1 True 1700000000000))) = Inl IdentityAlreadyRedeemed"
    using C4_rule_order[OF f r l ld, of 2 1 1700000000000 "''user@test.com''" "''10.0.0.1''"]
      n ex[of 2 1 1700000000000]
    by (simp add: sample_invite_def cached_invite.defs)
  show ?thesis using a b c by simp
qed

subsection \<open>A failed redemption changes no document\<close>

text \<open>
  Claim C10: when \<open>useInvite\<close> fails with one of the errors for an invalid format, a
  contended lock, a missing record, the maximum of uses, expiry or an identity that has
  already redeemed, the collection is exactly as before the call: the update is reached
  only after every rule has passed.
\<close>

theorem C10_failure_leaves_records:
  assumes "useInvite g e code0 userEmail ip s = (Inl err, s')"
    and "err \<in> {InvalidFormat, Contended, NotFound, MaxUsesReached, Expired,
                 IdentityAlreadyRedeemed}"
  shows "invites s' = invites s"
  using assms
  by (auto simp: useInvite_def useInvite_try_def Let_def
           split: if_splits option.splits prod.splits)

theorem C10_failure_leaves_records_witness:
  "fst (useInvite test_generator test_env ''K7QX-2N5X'' ''user@test.com'' ''10.0.0.1''
          (sample_store (sample_invite 2 1 True 5))) = Inl Expired \<and>
   invites (snd (useInvite test_generator test_env ''K7QX-2N5X'' ''user@test.com'' ''10.0.0.1''
                   (sample_store (sample_invite 2 1 True 5)))) =
   invites (sample_store (sample_invite 2 1 True 5))"
proof -
  let ?r = "useInvite test_generator test_env ''K7QX-2N5X'' ''user@test.com'' ''10.0.0.1''
              (sample_store (sample_invite 2 1 True 5))"
  have a: "fst ?r = Inl Expired" by code_simp
  then have "?r = (Inl Expired, snd ?r)" by (simp add: prod_eq_iff)
  then have "invites (snd ?r) = invites (sample_store (sample_invite 2 1 True 5))"
    by (rule C10_failure_leaves_records) simp
  then show ?thesis using a by simp
qed

subsection \<open>A used-up code, and failures of the cache\<close>

lemma inactive_code_not_found:
  assumes "isValidFormat g (toUpperCase code0)" and "\<not> redis_set_fails e"
    and "locks s (toUpperCase code0) = None"
    and "getFromCache e s (toUpperCase code0) = None"
    and "\<forall>d \<in> set (invites s). code d = toUpperCase code0 \<longrightarrow> \<not> isActive d"
  shows "fst (useInvite g e code0 userEmail ip s) = Inl NotFound"
proof -
  have "findOne_active (invites s) (toUpperCase code0) = None"
    using assms(5) by (auto simp: findOne_active_def find_None_iff)
  then have "load_invite e s (toUpperCase code0) = None"
    using assms(4) by (simp add: load_invite_def)
  then show ?thesis
    using assms(1-3) by (simp add: useInvite_def useInvite_try_def Let_def)
qed

text \<open>
  Claim C1 on the code: after the invite with \<open>maxUses = 1\<close> has been redeemed once (one
  document, \<open>currentUses = 1\<close>, inactive, and no cache entry left), the second redemption,
  by \<open>other@test.com\<close>, fails with \<open>NotFound\<close> ('Invalid invite code'): the query for an
  active document finds nothing, and the check of the uses is never reached.
\<close>

theorem C1_second_redemption_not_found:
  "map (\<lambda>d. (code d, maxUses d, currentUses d, isActive d)) (invites store_redeemed) =
     [(''K7QX-2N5X'', 1, 1, False)] \<and>
   cache store_redeemed ''K7QX-2N5X'' = None \<and>
   fst (useInvite test_generator test_env ''K7QX-2N5X'' ''other@test.com'' ''127.0.0.1''
          store_redeemed) = Inl NotFound"
  by code_simp

lemma createInvite_setex_fails:
  assumes "redis_setex_fails e"
  shows "isl (fst (createInvite g e referrer maxU days s))"
  using assms
  by (simp add: createInvite_def Let_def split: prod.splits option.splits sum.splits)

lemma useInvite_del_fails:
  assumes "redis_del_fails e"
  shows "isl (fst (useInvite g e code0 userEmail ip s))"
  using assms
  by (simp add: useInvite_def useInvite_try_def Let_def split: prod.splits option.splits)

text \<open>
  Claim C5 on the code: with a rejected \<open>setex\<close>, \<open>createInvite\<close> fails although the
  document has been committed; with a rejected \<open>del\<close>, \<open>useInvite\<close> fails although the
  update has been applied.
\<close>

theorem C5_cache_error_fails_operation:
  "isl (fst (createInvite test_generator (test_env\<lparr>redis_setex_fails := True\<rparr>)
               ''admin@test.com'' 1 30 empty_store)) \<and>
   map code (invites (fst (snd (createInvite test_generator
              (test_env\<lparr>redis_setex_fails := True\<rparr>) ''admin@test.com'' 1 30 empty_store)))) =
     [''K7QX-2N5X''] \<and>
   fst (useInvite test_generator (test_env\<lparr>redis_del_fails := True\<rparr>)
          ''K7QX-2N5X'' ''user@test.com'' ''127.0.0.1'' store_issued) = Inl RedisError \<and>
   map currentUses (invites store_issued) = [0] \<and>
   map currentUses
     (invites (snd (useInvite test_generator (test_env\<lparr>redis_del_fails := True\<rparr>)
                      ''K7QX-2N5X'' ''user@test.com'' ''127.0.0.1'' store_issued))) = [1]"
  by code_simp

subsection \<open>The bounded search for an unused code\<close>

lemma findOne_code_None: "(findOne_code db c = None) = (\<not> code_taken db c)"
  by (auto simp: findOne_code_def code_taken_def find_None_iff)

lemma loop_first_free:
  assumes "a \<le> k" "k < maxAttempts" "\<not> code_taken db (attempt_code g e k)"
    and "\<forall>j. a \<le> j \<and> j < k \<longrightarrow> code_taken db (attempt_code g e j)"
  shows "unique_code_loop g e db c a n = (Some (attempt_code g e k), k, n + (k - a) + 1)"
  using assms
proof (induction "k - a" arbitrary: a c n)
  case 0
  then have "a = k" by simp
  then show ?case
    using "0.prems"(2,3)
    by (subst unique_code_loop.simps) (simp add: Let_def findOne_code_None attempt_code_def)
next
  case (Suc m)
  then have ak: "a < k" "a < maxAttempts" by simp_all
  have taken: "code_taken db (attempt_code g e a)" using Suc.prems(4) ak(1) by simp
  have ih: "unique_code_loop g e db (Some (attempt_code g e a)) (Suc a) (Suc n) =
              (Some (attempt_code g e k), k, Suc n + (k - Suc a) + 1)"
    using Suc.hyps(1)[of "Suc a"] Suc.hyps(2) Suc.prems ak by simp
  show ?case
    using taken ak ih
    by (subst unique_code_loop.simps) (simp add: Let_def findOne_code_None attempt_code_def)
qed

lemma loop_all_taken:
  assumes "a \<le> maxAttempts"
    and "\<forall>j. a \<le> j \<and> j < maxAttempts \<longrightarrow> code_taken db (attempt_code g e j)"
  shows "\<exists>c'. unique_code_loop g e db c a n = (c', maxAttempts, n + (maxAttempts - a))"
  using assms
proof (induction "maxAttempts - a" arbitrary: a c n)
  case 0
  then have "a = maxAttempts" by simp
  then show ?case by (subst unique_code_loop.simps) simp
next
  case (Suc m)
  then have ak: "a < maxAttempts" by simp
  have taken: "code_taken db (attempt_code g e a)" using Suc.prems(2) ak by simp
  have h1: "m = maxAttempts - Suc a" using Suc.hyps(2) by simp
  have h2: "Suc a \<le> maxAttempts" using ak by simp
  have h3: "\<forall>j. Suc a \<le> j \<and> j < maxAttempts \<longrightarrow> code_taken db (attempt_code g e j)"
    using Suc.prems(2) by simp
  obtain c' where ih: "unique_code_loop g e db (Some (attempt_code g e a)) (Suc a) (Suc n) =
              (c', maxAttempts, Suc n + (maxAttempts - Suc a))"
    using Suc.hyps(1)[OF h1 h2 h3, of "Some (attempt_code g e a)" "Suc n"] by blast
  show ?case
    using taken ak ih
    by (subst unique_code_loop.simps) (simp add: Let_def findOne_code_None attempt_code_def)
qed

lemma generate_not_empty: "generate g bytes \<noteq> []"
  by (simp add: generate_def Let_def)

lemma attempt_code_not_empty: "attempt_code g e k \<noteq> []"
  by (simp add: attempt_code_def generateCode_def generate_not_empty)

lemma createInvite_first_free:
  assumes "k < maxAttempts" "\<not> code_taken (invites s) (attempt_code g e k)"
    and "\<forall>j < k. code_taken (invites s) (attempt_code g e j)"
  shows "createInvite g e referrer maxU days s =
          (let d = new_Invite (invites s) (attempt_code g e k) referrer maxU
                     (now e + days * 24 * 60 * 60 * 1000)
           in if \<not> schema_accepts referrer maxU (now e + days * 24 * 60 * 60 * 1000)
              then (Inl ValidationError, s, Suc k)
              else if redis_setex_fails e
              then (Inl RedisError, s\<lparr>invites := invites s @ [d]\<rparr>, Suc k)
              else (Inr d, s\<lparr>invites := invites s @ [d],
                              cache := (cache s)(attempt_code g e k \<mapsto> cached_invite.truncate d)\<rparr>,
                    Suc k))"
proof -
  have l: "unique_code_loop g e (invites s) None 0 0 = (Some (attempt_code g e k), k, Suc k)"
    using loop_first_free[of 0 k "invites s" g e None 0] assms by simp
  have k: "k \<noteq> maxAttempts" using assms(1) by simp
  show ?thesis
    unfolding createInvite_def l
    using k assms(2) attempt_code_not_empty[of g e k]
    by (simp add: Let_def save_def new_Invite_def findOne_code_None schema_accepts_def)
qed

lemma createInvite_all_taken:
  assumes "\<forall>j < maxAttempts. code_taken (invites s) (attempt_code g e j)"
  shows "createInvite g e referrer maxU days s = (Inl CodeSpaceExhausted, s, maxAttempts)"
proof -
  obtain c' where l: "unique_code_loop g e (invites s) None 0 0 = (c', maxAttempts, maxAttempts)"
    using loop_all_taken[of 0 "invites s" g e None 0] assms by auto
  show ?thesis unfolding createInvite_def l by simp
qed

lemma first_free_attempt:
  fixes n :: nat
  assumes "\<not> (\<forall>j < n. P j)"
  shows "\<exists>k < n. \<not> P k \<and> (\<forall>j < k. P j)"
proof -
  from assms obtain i where i: "i < n" "\<not> P i" by auto
  then have "\<exists>k. \<not> P k" by blast
  then obtain k where k: "\<not> P k" "\<forall>j < k. P j"
    using exists_least_iff[of "\<lambda>k. \<not> P k"] by auto
  have "k \<le> i" using k(2) i(2) by (meson not_less)
  then have "k < n" using i(1) by simp
  then show ?thesis using k by blast
qed

text \<open>
  Claim C8, as stated: every call of \<open>createInvite\<close> either persists a record under the
  first generated code that is not in use, or fails with \<open>CodeSpaceExhausted\<close> after 10
  colliding attempts.  A call with \<open>maxUses = 0\<close> on the empty collection does neither: its
  first code is free, the schema refuses the document, and the call fails with
  \<open>ValidationError\<close> after one attempt with nothing persisted.
\<close>

theorem C8_schema_refusal_counterexample:
  "fst (createInvite test_generator test_env ''admin@test.com'' 0 30 empty_store) =
     Inl ValidationError \<and>
   invites (fst (snd (createInvite test_generator test_env ''admin@test.com'' 0 30
                        empty_store))) = [] \<and>
   snd (snd (createInvite test_generator test_env ''admin@test.com'' 0 30 empty_store)) = 1"
  by code_simp

text \<open>
  Claim C8, amended: \<open>createInvite\<close> is a total function whose loop calls \<open>generateCode\<close> at
  most 10 times.  When the first 10 generated codes are all in use, the call fails with
  \<open>CodeSpaceExhausted\<close> after exactly 10 attempts and the state is unchanged.  Otherwise,
  with attempt \<open>k\<close> the first whose code is not in use, the call makes \<open>k + 1\<close> attempts and
  does not fail with \<open>CodeSpaceExhausted\<close>; when the schema accepts the document (a creator
  identity that is not blank, \<open>maxUses\<close> of at least 1, an expiry that is a date) it appends
  exactly one document, under that code and with the identity lower-cased and trimmed, to
  the collection, and when the schema refuses the document the call fails with
  \<open>ValidationError\<close> and the state is unchanged.
\<close>

theorem C8_bounded_generation:
  assumes "createInvite g e referrer maxU days s = (r, s', calls)"
  shows "calls \<le> 10 \<and>
         ((\<forall>j < 10. code_taken (invites s) (attempt_code g e j)) \<longrightarrow>
            r = Inl CodeSpaceExhausted \<and> s' = s \<and> calls = 10) \<and>
         (\<forall>k < 10. \<not> code_taken (invites s) (attempt_code g e k) \<and>
                    (\<forall>j < k. code_taken (invites s) (attempt_code g e j)) \<longrightarrow>
            calls = k + 1 \<and> r \<noteq> Inl CodeSpaceExhausted \<and>
            (if schema_accepts referrer maxU (now e + days * 24 * 60 * 60 * 1000)
             then invites s' =
                    invites s @ [new_Invite (invites s) (attempt_code g e k) referrer maxU
                                   (now e + days * 24 * 60 * 60 * 1000)]
             else r = Inl ValidationError \<and> s' = s))"
proof -
  have m: "maxAttempts = 10" by (simp add: maxAttempts_def)
  have ex: "r = Inl CodeSpaceExhausted \<and> s' = s \<and> calls = 10"
    if "\<forall>j < 10. code_taken (invites s) (attempt_code g e j)"
    using createInvite_all_taken[of s g e referrer maxU days] that assms m by simp
  have ok: "calls = k + 1 \<and> r \<noteq> Inl CodeSpaceExhausted \<and>
            (if schema_accepts referrer maxU (now e + days * 24 * 60 * 60 * 1000)
             then invites s' =
                    invites s @ [new_Invite (invites s) (attempt_code g e k) referrer maxU
                                   (now e + days * 24 * 60 * 60 * 1000)]
             else r = Inl ValidationError \<and> s' = s)"
    if "k < 10" "\<not> code_taken (invites s) (attempt_code g e k)"
       "\<forall>j < k. code_taken (invites s) (attempt_code g e j)" for k
    using createInvite_first_free[OF _ that(2,3), of referrer maxU days] that(1) assms m
    by (auto simp: Let_def split: if_splits)
  have "calls \<le> 10"
  proof (cases "\<forall>j < 10. code_taken (invites s) (attempt_code g e j)")
    case True
    then show ?thesis using ex by simp
  next
    case False
    then obtain k where "k < 10" "\<not> code_taken (invites s) (attempt_code g e k)"
       "\<forall>j < k. code_taken (invites s) (attempt_code g e j)"
      using first_free_attempt[of 10 "\<lambda>j. code_taken (invites s) (attempt_code g e j)"] by blast
    then show ?thesis using ok[of k] by simp
  qed
  then show ?thesis using ex ok by blast
qed

theorem C8_bounded_generation_witness:
  "createInvite test_generator test_env ''admin@test.com'' 1 30 store_issued =
     (Inl CodeSpaceExhausted, store_issued, 10) \<and>
   snd (snd (createInvite test_generator test_env '' Admin@Test.com '' 1 30 empty_store)) = 1 \<and>
   map (\<lambda>d. (code d, referrerEmail d))
     (invites (fst (snd (createInvite test_generator test_env '' Admin@Test.com '' 1 30
                           empty_store)))) = [(''K7QX-2N5X'', ''admin@test.com'')] \<and>
   createInvite test_generator test_env ''admin@test.com'' 1 99980325 empty_store =
     (Inl ValidationError, empty_store, 1)"
proof -
  let ?a = "createInvite test_generator test_env ''admin@test.com'' 1 30 store_issued"
  let ?b = "createInvite test_generator test_env '' Admin@Test.com '' 1 30 empty_store"
  let ?c = "createInvite test_generator test_env ''admin@test.com'' 1 99980325 empty_store"
  have ac: "attempt_code test_generator test_env j = ''K7QX-2N5X''" for j
  proof -
    have "generate test_generator [0, 1, 2, 3, 4, 5, 6, 7, 8, 9, 10, 11, 12, 13] = ''K7QX-2N5X''"
      by code_simp
    then show ?thesis by (simp add: attempt_code_def generateCode_def test_env_def)
  qed
  have t: "code_taken (invites store_issued) ''K7QX-2N5X''" by code_simp
  have f: "\<not> code_taken (invites empty_store) ''K7QX-2N5X''"
    by (simp add: code_taken_def empty_store_def)
  have n: "now test_env = 1700000000000" by (simp add: test_env_def)
  have se: "schema_email '' Admin@Test.com '' = ''admin@test.com''" by code_simp
  have yes: "schema_accepts '' Admin@Test.com '' 1 (now test_env + 30 * 24 * 60 * 60 * 1000)"
    unfolding n by (simp add: schema_accepts_def se valid_date_def)
  have no: "\<not> schema_accepts ''admin@test.com'' 1 (now test_env + 99980325 * 24 * 60 * 60 * 1000)"
    unfolding n by (simp add: schema_accepts_def valid_date_def)
  have ea: "?a = (fst ?a, fst (snd ?a), snd (snd ?a))" by simp
  have eb: "?b = (fst ?b, fst (snd ?b), snd (snd ?b))" by simp
  have ec: "?c = (fst ?c, fst (snd ?c), snd (snd ?c))" by simp
  have a: "fst ?a = Inl CodeSpaceExhausted \<and> fst (snd ?a) = store_issued \<and> snd (snd ?a) = 10"
    using C8_bounded_generation[OF ea] t by (simp add: ac)
  have b: "snd (snd ?b) = 0 + 1 \<and>
           invites (fst (snd ?b)) =
             invites empty_store @
               [new_Invite (invites empty_store) (attempt_code test_generator test_env 0)
                  '' Admin@Test.com '' 1 (now test_env + 30 * 24 * 60 * 60 * 1000)]"
    using C8_bounded_generation[OF eb, THEN conjunct2, THEN conjunct2, rule_format, of 0] f yes
    by (simp add: ac)
  have c: "snd (snd ?c) = 0 + 1 \<and> fst ?c = Inl ValidationError \<and> fst (snd ?c) = empty_store"
    using C8_bounded_generation[OF ec, THEN conjunct2, THEN conjunct2, rule_format, of 0] f no
    by (simp add: ac)
  have a': "?a = (Inl CodeSpaceExhausted, store_issued, 10)"
    using a by (simp add: prod_eq_iff)
  have b1: "snd (snd ?b) = 1" using b by simp
  have b2: "map (\<lambda>d. (code d, referrerEmail d)) (invites (fst (snd ?b))) =
              [(''K7QX-2N5X'', ''admin@test.com'')]"
    using b by (simp add: ac new_Invite_def empty_store_def se)
  have c': "?c = (Inl ValidationError, empty_store, 1)"
    using c by (simp add: prod_eq_iff)
  show ?thesis by (intro conjI) (rule a', rule b1, rule b2, rule c')
qed

subsection \<open>Statistics\<close>

lemma add_ratio_simps:
  "add_ratio None d = None"
  "add_ratio (Some x) d =
     (if maxUses d = 0 then None
      else Some (x + of_int (currentUses d) / of_int (maxUses d)))"
  by (simp_all add: add_ratio_def)

lemma foldl_add_ratio_None: "foldl add_ratio None xs = None"
  by (induction xs) (simp_all add: add_ratio_simps)

lemma foldl_add_ratio:
  "foldl add_ratio (Some a) xs =
     (if \<exists>d \<in> set xs. maxUses d = 0 then None
      else Some (a + (\<Sum>d\<leftarrow>xs. of_int (currentUses d) / of_int (maxUses d))))"
proof (induction xs arbitrary: a)
  case Nil
  then show ?case by simp
next
  case (Cons x xs)
  show ?case
  proof (cases "maxUses x = 0")
    case True
    then show ?thesis by (simp add: add_ratio_simps foldl_add_ratio_None)
  next
    case False
    then show ?thesis using Cons.IH by (simp add: add_ratio_simps algebra_simps)
  qed
qed

text \<open>
  Claim C9, as stated: the expired count is the number of records with
  \<open>now > expiresAt\<close>, and the active count the number of records whose flag is set and
  which are not expired in that sense.  For a record that expires exactly at the time of
  the query the code counts it as expired and not as active; the claim counts it as
  active and not as expired.
\<close>

theorem C9_expired_boundary_counterexample:
  "expiredInvites (getInviteStats 1000 ''admin@test.com'' [sample_invite 1 0 True 1000]) = 1 \<and>
   length (filter (\<lambda>d. 1000 > expiresAt d) [sample_invite 1 0 True 1000]) = 0 \<and>
   activeInvites (getInviteStats 1000 ''admin@test.com'' [sample_invite 1 0 True 1000]) = 0 \<and>
   length (filter (\<lambda>d. isActive d \<and> \<not> 1000 > expiresAt d) [sample_invite 1 0 True 1000]) = 1"
  by code_simp

text \<open>
  Claim C9, amended: over the records of the creator identity, \<open>getInviteStats\<close> returns
  the number of records; as active the number of records with the flag set and
  \<open>expiresAt > now\<close>; as expired the number of records with \<open>expiresAt \<le> now\<close>, whatever the
  flag; as fully used the number of records with \<open>currentUses \<ge> maxUses\<close>; and as usage rate
  the mean of \<open>currentUses / maxUses\<close> times 100 (0 without records, not finite when some
  \<open>maxUses\<close> is 0), taken in exact arithmetic before it is rounded to two decimals.
\<close>

theorem C9_stats:
  "totalInvites (getInviteStats t referrer db) = length (find_referrer db referrer) \<and>
   activeInvites (getInviteStats t referrer db) =
     card {i. i < length (find_referrer db referrer) \<and>
              isActive (find_referrer db referrer ! i) \<and>
              t < expiresAt (find_referrer db referrer ! i)} \<and>
   expiredInvites (getInviteStats t referrer db) =
     card {i. i < length (find_referrer db referrer) \<and>
              expiresAt (find_referrer db referrer ! i) \<le> t} \<and>
   fullyUsedInvites (getInviteStats t referrer db) =
     card {i. i < length (find_referrer db referrer) \<and>
              maxUses (find_referrer db referrer ! i) \<le> currentUses (find_referrer db referrer ! i)} \<and>
   averageUsageRate (getInviteStats t referrer db) =
     (if find_referrer db referrer = [] then Some 0
      else if \<exists>d \<in> set (find_referrer db referrer). maxUses d = 0 then None
      else Some ((\<Sum>d\<leftarrow>find_referrer db referrer. of_int (currentUses d) / of_int (maxUses d))
                   / of_nat (length (find_referrer db referrer)) * 100))"
  by (simp add: getInviteStats_def Let_def length_filter_conv_card foldl_add_ratio)


subsection \<open>Concurrent redemptions\<close>

text \<open>
  The steps of one call, run without interruption, are \<open>useInvite\<close>: seven steps reach
  \<open>Done\<close> from \<open>Start\<close> on every path.
\<close>

lemma useInvite_steps:
  "(useInvite_step g rq ^^ 7) (Start, s) =
     (Done (fst (useInvite g (req_env rq) (req_code rq) (req_email rq) (req_ip rq) s)),
      snd (useInvite g (req_env rq) (req_code rq) (req_email rq) (req_ip rq) s))"
  by (simp add: eval_nat_numeral useInvite_def useInvite_try_def load_invite_def
        check_loaded_def Let_def getFromCache_def release_lock_def
        split: option.splits prod.splits)

text \<open>
  A call that finds the lock of its code taken fails at once with \<open>Contended\<close>, whatever
  the state of the invite, and changes no document: the code neither waits for the lock
  nor tries again.
\<close>

lemma held_lock_contended:
  assumes "isValidFormat g (toUpperCase code0)" and "\<not> redis_set_fails e"
    and "locks s (toUpperCase code0) \<noteq> None"
  shows "fst (useInvite g e code0 userEmail ip s) = Inl Contended"
    and "invites (snd (useInvite g e code0 userEmail ip s)) = invites s"
  using assms by (simp_all add: useInvite_def useInvite_try_def Let_def)

text \<open>
  Claim C2 on the code, for \<open>k = 2\<close> and \<open>m = 5\<close> as in the unit test "should handle
  concurrent requests": the first call takes the lock, the other four find it taken and
  fail with \<open>Contended\<close> ('Another request is processing this code'), and the first call
  then succeeds.  One call succeeds, four fail, and \<open>currentUses\<close> ends at 1, where the
  claim and the test require two successes, three failures and \<open>currentUses = 2\<close>.
\<close>

theorem C2_concurrent_redemptions:
  "(case run_schedule test_generator concurrent_requests test_schedule
           (replicate 5 Start, store_issued2) of
      (pcs, s) \<Rightarrow>
        (length (filter succeeded pcs), length (filter failed pcs),
         map (\<lambda>d. (maxUses d, currentUses d)) (invites s))) = (1, 4, [(2, 1)])"
  by code_simp

text \<open>Made one after the other, the same five calls give two successes and three failures.\<close>

lemma sequential_redemptions:
  "(case run_schedule test_generator concurrent_requests sequential_schedule
           (replicate 5 Start, store_issued2) of
      (pcs, s) \<Rightarrow>
        (length (filter succeeded pcs), length (filter failed pcs),
         map (\<lambda>d. (maxUses d, currentUses d)) (invites s))) = (2, 3, [(2, 2)])"
  by code_simp

end
